theory Spec2Isabelle
  imports Main
begin

section \<open>Entity model\<close>

text \<open>
  A dragee is a named entity with an optional dependency object. The type lives in the
  \<open>common\<close> module; \<open>src/asserter/index.ts\<close> reads two of its fields only, \<open>name\<close> and
  \<open>depends_on\<close>. The dependency object is kept as the list of its entries in the order
  \<open>Object.keys\<close> enumerates them, the metadata type \<open>'m\<close> is left open, and an absent
  \<open>depends_on\<close> is \<open>None\<close> (every object, also the empty one, is truthy).
\<close>

record 'm Dragee =
  name :: string
  depends_on :: "(string \<times> 'm) list option"

text \<open>The object literal \<open>{ root, dependencies }\<close> returned by \<open>directDependencies\<close>.\<close>

record 'm DirectDependencies =
  root :: "'m Dragee"
  dependencies :: "'m Dragee list"

text \<open>\<open>Object.keys(o)\<close> on the entry list of an object.\<close>

definition object_keys :: "(string \<times> 'm) list \<Rightarrow> string list" where
  "object_keys o_entries = map fst o_entries"

text \<open>
  \<open>directDependencies\<close>: without \<open>depends_on\<close> the dependency list is empty; otherwise every key
  is looked up with \<open>Array.prototype.find\<close> (first element satisfying the predicate, or
  \<open>undefined\<close>) and the \<open>undefined\<close> entries are filtered out.
\<close>

definition directDependencies :: "'m Dragee \<Rightarrow> 'm Dragee list \<Rightarrow> 'm DirectDependencies" where
  "directDependencies r allDragees =
     (case depends_on r of
        None \<Rightarrow> \<lparr>root = r, dependencies = []\<rparr>
      | Some deps \<Rightarrow>
          \<lparr>root = r,
           dependencies =
             map the
               (filter (\<lambda>dragee. dragee \<noteq> None)
                 (map (\<lambda>dependency. find (\<lambda>dragee. name dragee = dependency) allDragees)
                      (object_keys deps)))\<rparr>)"

section \<open>Rule results in the object store\<close>

text \<open>
  The engine stamps \<open>ruleId\<close> into the objects the rule handlers return
  (\<open>result.ruleId = rule.id\<close>, \<open>result.error.ruleId = result.ruleId\<close>), so objects have an
  identity here: a \<open>RuleResult\<close> or a \<open>RuleError\<close> value of the program is an address into a
  store, and two occurrences of one address are one object. A failed result holds the address
  of its error object. The \<open>pass\<close> tag of the union is the constructor.
\<close>

type_synonym addr = nat

record RuleError =
  ruleId :: "string option"
  message :: string
  drageeName :: string

datatype RuleResult =
    SuccessfulRuleResult (resultRuleId: "string option")
  | FailedRuleResult (resultRuleId: "string option") (error: addr)

fun resultPass :: "RuleResult \<Rightarrow> bool" where
  "resultPass (SuccessfulRuleResult rid) = True"
| "resultPass (FailedRuleResult rid e) = False"

text \<open>The assignment \<open>result.ruleId = v\<close> on the object itself.\<close>

fun setResultRuleId :: "string option \<Rightarrow> RuleResult \<Rightarrow> RuleResult" where
  "setResultRuleId v (SuccessfulRuleResult rid) = SuccessfulRuleResult v"
| "setResultRuleId v (FailedRuleResult rid e) = FailedRuleResult v e"

text \<open>
  The store: the result objects, the error objects, and for each kind the next address an
  object literal will take. Addresses below that mark are the objects created so far.
\<close>

record heap =
  resultObjs :: "addr \<Rightarrow> RuleResult"
  errorObjs :: "addr \<Rightarrow> RuleError"
  freshResult :: addr
  freshError :: addr

definition emptyHeap :: heap where
  "emptyHeap =
     \<lparr>resultObjs = (\<lambda>a. SuccessfulRuleResult None),
      errorObjs = (\<lambda>a. \<lparr>ruleId = None, message = [], drageeName = []\<rparr>),
      freshResult = 0, freshError = 0\<rparr>"

text \<open>\<open>successful()\<close> returns the fresh object \<open>{ pass: true }\<close>.\<close>

definition successful :: "heap \<Rightarrow> addr \<times> heap" where
  "successful h =
     (freshResult h,
      h\<lparr>resultObjs := (resultObjs h)(freshResult h := SuccessfulRuleResult None),
        freshResult := Suc (freshResult h)\<rparr>)"

text \<open>
  \<open>failed(dragee, message)\<close> returns the fresh object
  \<open>{ pass: false, error: { drageeName: dragee.name, message } }\<close>: two object literals, the
  error and the result holding it.
\<close>

definition failed :: "'m Dragee \<Rightarrow> string \<Rightarrow> heap \<Rightarrow> addr \<times> heap" where
  "failed dragee msg h =
     (freshResult h,
      h\<lparr>errorObjs := (errorObjs h)(freshError h :=
            \<lparr>ruleId = None, message = msg, drageeName = name dragee\<rparr>),
        freshError := Suc (freshError h),
        resultObjs := (resultObjs h)(freshResult h := FailedRuleResult None (freshError h)),
        freshResult := Suc (freshResult h)\<rparr>)"

text \<open>
  \<open>Array.prototype.map\<close> and \<open>flatMap\<close> with a callback that works on the store: the callback
  runs on the elements from left to right, each call on the store the previous one left.
\<close>

fun array_map :: "('a \<Rightarrow> 's \<Rightarrow> 'b \<times> 's) \<Rightarrow> 'a list \<Rightarrow> 's \<Rightarrow> 'b list \<times> 's" where
  "array_map f [] h = ([], h)"
| "array_map f (x # xs) h =
     (case f x h of (y, h1) \<Rightarrow>
        (case array_map f xs h1 of (ys, h2) \<Rightarrow> (y # ys, h2)))"

fun array_flatMap :: "('a \<Rightarrow> 's \<Rightarrow> 'b list \<times> 's) \<Rightarrow> 'a list \<Rightarrow> 's \<Rightarrow> 'b list \<times> 's" where
  "array_flatMap f [] h = ([], h)"
| "array_flatMap f (x # xs) h =
     (case f x h of (ys, h1) \<Rightarrow>
        (case array_flatMap f xs h1 of (zs, h2) \<Rightarrow> (ys @ zs, h2)))"

section \<open>Expectations\<close>

definition expectDragee ::
  "'m Dragee \<Rightarrow> 'm Dragee \<Rightarrow> string \<Rightarrow> ('m Dragee \<Rightarrow> bool) \<Rightarrow> heap \<Rightarrow> addr \<times> heap" where
  "expectDragee r dragee errorMsg evalFn h =
     (if evalFn dragee then successful h else failed r errorMsg h)"

definition expectDragees ::
  "'m Dragee \<Rightarrow> 'm Dragee list \<Rightarrow> string \<Rightarrow> ('m Dragee list \<Rightarrow> bool) \<Rightarrow> heap \<Rightarrow> addr \<times> heap" where
  "expectDragees r dependancies errorMsg evalFn h =
     (if evalFn dependancies then successful h else failed r errorMsg h)"

definition multipleExpectDragees ::
  "'m Dragee \<Rightarrow> 'm Dragee list \<Rightarrow> string \<Rightarrow> ('m Dragee \<Rightarrow> bool) \<Rightarrow> heap \<Rightarrow> addr list \<times> heap" where
  "multipleExpectDragees r dragees errorMsg evalFn h =
     array_map (\<lambda>d h'. if evalFn d then successful h' else failed r errorMsg h') dragees h"

section \<open>Rules, asserters and reports\<close>

datatype RuleSeverity = ERROR | WARN | INFO

text \<open>
  A rule handler is code of the rule's author: it gets the dragees and returns an array of
  result objects, which it may create (as \<open>successful\<close> and \<open>failed\<close> do) or hold already. The
  field \<open>id\<close> of a rule is \<open>rule_id\<close> here, and the \<open>namespace\<close> of an asserter is
  \<open>asserterNamespace\<close>, to keep them apart from the identity function and from the report's
  field.
\<close>

record 'm Rule =
  rule_id :: string
  label :: string
  severity :: RuleSeverity
  handler :: "'m Dragee list \<Rightarrow> heap \<Rightarrow> addr list \<times> heap"

record 'm Asserter =
  asserterNamespace :: string
  rules :: "'m Rule list"
  rule :: "string \<Rightarrow> 'm Rule option"

record ReportStats =
  rulesCount :: nat
  passCount :: nat
  errorsCount :: nat

text \<open>
  A report holds its errors as the engine collected them, that is as references to the error
  objects (\<open>addr Report\<close>); \<open>reportValue\<close> reads them in a store and gives the report as plain
  data (\<open>RuleError Report\<close>).
\<close>

record 'e Report =
  pass :: bool
  namespace :: string
  errors :: "'e list"
  stats :: ReportStats

definition reportValue :: "heap \<Rightarrow> addr Report \<Rightarrow> RuleError Report" where
  "reportValue h r =
     \<lparr>pass = pass r, namespace = namespace r,
      errors = map (errorObjs h) (errors r), stats = stats r\<rparr>"

text \<open>The callback \<open>result => { result.ruleId = rule.id; return result; }\<close>.\<close>

definition stampResult :: "string \<Rightarrow> addr \<Rightarrow> heap \<Rightarrow> addr \<times> heap" where
  "stampResult rid result h =
     (result,
      h\<lparr>resultObjs := (resultObjs h)(result := setResultRuleId (Some rid) (resultObjs h result))\<rparr>)"

text \<open>
  The callback \<open>result => { result.error.ruleId = result.ruleId; return result.error; }\<close>. It
  is applied to the results that the filter \<open>!result.pass\<close> kept, which are failed results and
  have an \<open>error\<close>; the selector \<open>error\<close> says nothing of a successful result, and nothing
  below reads it there.
\<close>

definition stampError :: "addr \<Rightarrow> heap \<Rightarrow> addr \<times> heap" where
  "stampError result h =
     (error (resultObjs h result),
      h\<lparr>errorObjs := (errorObjs h)(error (resultObjs h result) :=
            (errorObjs h (error (resultObjs h result)))
              \<lparr>ruleId := resultRuleId (resultObjs h result)\<rparr>)\<rparr>)"

text \<open>The callback of \<open>flatMap\<close>: \<open>rule => rule.handler(dragees).map(result => ...)\<close>.\<close>

definition runRule :: "'m Dragee list \<Rightarrow> 'm Rule \<Rightarrow> heap \<Rightarrow> addr list \<times> heap" where
  "runRule dragees r h =
     (case handler r dragees h of (results, h1) \<Rightarrow>
        array_map (stampResult (rule_id r)) results h1)"

text \<open>
  The aggregation both entry points end with: the errors of the failed results, stamped; the
  passed results; the report.
\<close>

definition aggregate :: "'m Asserter \<Rightarrow> addr list \<Rightarrow> heap \<Rightarrow> addr Report \<times> heap" where
  "aggregate asserter rulesResults h =
     (case array_map stampError
             (filter (\<lambda>result. \<not> resultPass (resultObjs h result)) rulesResults) h of
        (rulesResultsErrors, h1) \<Rightarrow>
          (let rulesResultsPassed =
                 filter (\<lambda>result. resultPass (resultObjs h1 result)) rulesResults
           in (\<lparr>pass = (length rulesResultsErrors = 0),
                namespace = asserterNamespace asserter,
                errors = rulesResultsErrors,
                stats = \<lparr>rulesCount = length (rules asserter),
                         passCount = length rulesResultsPassed,
                         errorsCount = length rulesResultsErrors\<rparr>\<rparr>, h1)))"

definition asserterHandler :: "'m Asserter \<Rightarrow> 'm Dragee list \<Rightarrow> heap \<Rightarrow> addr Report \<times> heap" where
  "asserterHandler asserter dragees h =
     (case array_flatMap (runRule dragees) (rules asserter) h of
        (rulesResults, h1) \<Rightarrow> aggregate asserter rulesResults h1)"

definition generateReportForRule ::
  "'m Asserter \<Rightarrow> 'm Dragee list \<Rightarrow> string \<Rightarrow> heap \<Rightarrow> addr Report \<times> heap" where
  "generateReportForRule asserter dragees file h =
     (case rule asserter file of
        None \<Rightarrow>
          (\<lparr>pass = True, namespace = asserterNamespace asserter, errors = [],
            stats = \<lparr>rulesCount = 0, passCount = 0, errorsCount = 0\<rparr>\<rparr>, h)
      | Some r \<Rightarrow>
          (case runRule dragees r h of
             (ruleResults, h1) \<Rightarrow> aggregate asserter ruleResults h1))"

text \<open>
  The arrays that the handlers return during \<open>asserterHandler\<close>, one for each rule in the
  order of the calls: the handler of a rule is called on the store that the rules before it
  left, stamps included.
\<close>

fun handlerReturns :: "'m Dragee list \<Rightarrow> 'm Rule list \<Rightarrow> heap \<Rightarrow> addr list list" where
  "handlerReturns dragees [] h = []"
| "handlerReturns dragees (r # rs) h =
     fst (handler r dragees h) # handlerReturns dragees rs (snd (runRule dragees r h))"

section \<open>Dragees to run on\<close>

text \<open>
  Four dragees without metadata: \<open>a\<close> depends on \<open>b\<close>, on \<open>zz\<close> (which names no dragee) and
  on \<open>c\<close>; \<open>exampleB2\<close> is a second dragee named \<open>b\<close>.
\<close>

definition exampleB :: "unit Dragee" where
  "exampleB = \<lparr>name = ''b'', depends_on = None\<rparr>"

definition exampleC :: "unit Dragee" where
  "exampleC = \<lparr>name = ''c'', depends_on = Some []\<rparr>"


definition exampleA :: "unit Dragee" where
  "exampleA = \<lparr>name = ''a'', depends_on = Some [(''b'', ()), (''zz'', ()), (''c'', ())]\<rparr>"

section \<open>Reading results as values, and created objects\<close>

text \<open>
  The value of a result object in a store: its tag, its \<open>ruleId\<close> and, for a failed result,
  the value of the error object it holds.
\<close>

datatype RuleResultValue =
    SuccessfulValue "string option"
  | FailedValue "string option" RuleError

definition resultValue :: "heap \<Rightarrow> addr \<Rightarrow> RuleResultValue" where
  "resultValue h a =
     (case resultObjs h a of
        SuccessfulRuleResult rid \<Rightarrow> SuccessfulValue rid
      | FailedRuleResult rid e \<Rightarrow> FailedValue rid (errorObjs h e))"

text \<open>
  \<open>heapExtends h h'\<close>: from \<open>h\<close> to \<open>h'\<close> objects were created only; the objects of \<open>h\<close> are as
  they were. \<open>createdIn h h' a\<close>: the result \<open>a\<close>, with its error if it has one, is one of the
  objects created in between.
\<close>

definition heapExtends :: "heap \<Rightarrow> heap \<Rightarrow> bool" where
  "heapExtends h h' \<longleftrightarrow>
     freshResult h \<le> freshResult h' \<and> freshError h \<le> freshError h' \<and>
     (\<forall>a < freshResult h. resultObjs h' a = resultObjs h a) \<and>
     (\<forall>e < freshError h. errorObjs h' e = errorObjs h e)"

definition createdIn :: "heap \<Rightarrow> heap \<Rightarrow> addr \<Rightarrow> bool" where
  "createdIn h h' a \<longleftrightarrow>
     freshResult h \<le> a \<and> a < freshResult h' \<and>
     (case resultObjs h' a of
        SuccessfulRuleResult rid \<Rightarrow> True
      | FailedRuleResult rid e \<Rightarrow> freshError h \<le> e \<and> e < freshError h')"

section \<open>An asserter to run\<close>

text \<open>
  An asserter of two rules in the namespace \<open>layering\<close>: the first fails every dragee named
  \<open>b\<close> on behalf of the root \<open>exampleA\<close>, the second passes every dragee.
\<close>

definition exampleFailing :: "unit Rule" where
  "exampleFailing =
     \<lparr>rule_id = ''layering/no-cycle'', label = ''no-cycle'', severity = ERROR,
      handler = (\<lambda>dragees.
        multipleExpectDragees exampleA dragees ''cycle detected'' (\<lambda>d. name d \<noteq> ''b''))\<rparr>"

definition examplePassing :: "unit Rule" where
  "examplePassing =
     \<lparr>rule_id = ''layering/named'', label = ''named'', severity = WARN,
      handler = (\<lambda>dragees. array_map (\<lambda>d. successful) dragees)\<rparr>"

definition exampleAsserter :: "unit Asserter" where
  "exampleAsserter =
     \<lparr>asserterNamespace = ''layering'', rules = [exampleFailing, examplePassing],
      rule = (\<lambda>file. if file = ''no-cycle'' then Some exampleFailing
                     else if file = ''named'' then Some examplePassing else None)\<rparr>"

section \<open>Handlers that create their results\<close>




text \<open>
  What the two assignments do to the value of a result: \<open>result.ruleId = rule.id\<close>, and for a
  failed result \<open>result.error.ruleId = result.ruleId\<close>.
\<close>

fun stampedValue :: "string \<Rightarrow> RuleResultValue \<Rightarrow> RuleResultValue" where
  "stampedValue rid (SuccessfulValue old) = SuccessfulValue (Some rid)"
| "stampedValue rid (FailedValue old e) = FailedValue (Some rid) e"





section \<open>Two rules that return one object\<close>





section \<open>A rule that overwrites an earlier result\<close>

text \<open>
  A rule whose handler returns a result it creates, and also assigns its own id to the result
  at address 0, a reference it held from elsewhere; it runs after \<open>examplePassing\<close>.
\<close>

definition overwritingRule :: "unit Rule" where
  "overwritingRule =
     \<lparr>rule_id = ''layering/overwriting'', label = ''overwriting'', severity = INFO,
      handler = (\<lambda>dragees h.
        case successful h of
          (a, h1) \<Rightarrow>
            ([a], h1\<lparr>resultObjs := (resultObjs h1)(0 :=
                      setResultRuleId (Some ''layering/overwriting'') (resultObjs h1 0))\<rparr>))\<rparr>"

definition overwritingAsserter :: "unit Asserter" where
  "overwritingAsserter =
     \<lparr>asserterNamespace = ''layering'', rules = [examplePassing, overwritingRule],
      rule = (\<lambda>file. None)\<rparr>"

section \<open>Dependency resolution\<close>

lemma find_name_in_set:
  "find (\<lambda>d. name d = k) ds = Some x \<Longrightarrow> x \<in> set ds \<and> name x = k"
  by (induction ds) (auto split: if_splits)

lemma find_name_None:
  "(find (\<lambda>d. name d = k) ds = None) = (k \<notin> name ` set ds)"
  by (induction ds) auto

lemma resolved_names:
  "map name (map the (filter (\<lambda>d. d \<noteq> None)
       (map (\<lambda>k. find (\<lambda>d. name d = k) ds) ks)))
   = filter (\<lambda>k. k \<in> name ` set ds) ks"
proof (induction ks)
  case Nil
  show ?case by simp
next
  case (Cons k ks)
  show ?case
  proof (cases "find (\<lambda>d. name d = k) ds")
    case None
    with Cons show ?thesis by (simp add: find_name_None [symmetric])
  next
    case (Some x)
    then have "k \<in> name ` set ds" using find_name_None [of k ds] by simp
    with Some Cons show ?thesis using find_name_in_set [OF Some] by simp
  qed
qed

lemma resolved_first:
  "x \<in> set (map the (filter (\<lambda>d. d \<noteq> None)
       (map (\<lambda>k. find (\<lambda>d. name d = k) ds) ks)))
   \<Longrightarrow> name x \<in> set ks \<and> find (\<lambda>d. name d = name x) ds = Some x"
proof (induction ks)
  case Nil
  then show ?case by simp
next
  case (Cons k ks)
  show ?case
  proof (cases "find (\<lambda>d. name d = k) ds")
    case None
    with Cons show ?thesis by simp
  next
    case (Some y)
    show ?thesis
    proof (cases "x = y")
      case True
      with Some find_name_in_set [OF Some] show ?thesis by simp
    next
      case False
      with Some Cons show ?thesis by simp
    qed
  qed
qed


text \<open>
  Claim C5. \<open>directDependencies(root, allDragees)\<close> returns the root it was given. Without
  \<open>depends_on\<close> the dependencies are empty. Otherwise the names of the dependencies are the
  keys of \<open>depends_on\<close> that name a dragee of \<open>allDragees\<close>, in key order, the other keys
  being left out without an error, and every dependency is a dragee of \<open>allDragees\<close>.
\<close>

theorem directDependencies_resolves:
  "root (directDependencies r allDragees) = r \<and>
   (depends_on r = None \<longrightarrow> dependencies (directDependencies r allDragees) = []) \<and>
   (\<forall>deps. depends_on r = Some deps \<longrightarrow>
      map name (dependencies (directDependencies r allDragees))
        = filter (\<lambda>k. k \<in> name ` set allDragees) (object_keys deps) \<and>
      set (dependencies (directDependencies r allDragees)) \<subseteq> set allDragees)"
proof -
  have unfold: "dependencies (directDependencies r allDragees)
      = map the (filter (\<lambda>d. d \<noteq> None)
          (map (\<lambda>k. find (\<lambda>d. name d = k) allDragees) (object_keys deps)))"
    if "depends_on r = Some deps" for deps
    using that by (simp add: directDependencies_def)
  have names: "map name (dependencies (directDependencies r allDragees))
      = filter (\<lambda>k. k \<in> name ` set allDragees) (object_keys deps)"
    if "depends_on r = Some deps" for deps
    by (simp only: unfold [OF that] resolved_names)
  have sub: "set (dependencies (directDependencies r allDragees)) \<subseteq> set allDragees"
    if "depends_on r = Some deps" for deps
  proof
    fix x assume "x \<in> set (dependencies (directDependencies r allDragees))"
    then have "x \<in> set (map the (filter (\<lambda>d. d \<noteq> None)
       (map (\<lambda>k. find (\<lambda>d. name d = k) allDragees) (object_keys deps))))"
      by (simp only: unfold [OF that])
    from resolved_first [OF this] find_name_in_set show "x \<in> set allDragees" by blast
  qed
  have none: "depends_on r = None \<Longrightarrow> dependencies (directDependencies r allDragees) = []"
    by (simp add: directDependencies_def)
  have rt: "root (directDependencies r allDragees) = r"
    by (simp add: directDependencies_def split: option.splits)
  from names sub none rt show ?thesis by blast
qed

text \<open>
  On the example dragees: \<open>a\<close> resolves to the dragees named \<open>b\<close> and \<open>c\<close>, in the order of its
  keys and whatever their order in \<open>allDragees\<close>; the key \<open>zz\<close> is left out; \<open>b\<close>, which has no
  \<open>depends_on\<close>, resolves to nothing.
\<close>

theorem directDependencies_resolves_witness:
  "depends_on exampleA = Some [(''b'', ()), (''zz'', ()), (''c'', ())] \<and>
   depends_on exampleB = None \<and>
   dependencies (directDependencies exampleB [exampleC, exampleA, exampleB]) = [] \<and>
   map name (dependencies (directDependencies exampleA [exampleC, exampleA, exampleB]))
     = [''b'', ''c''] \<and>
   set (dependencies (directDependencies exampleA [exampleC, exampleA, exampleB]))
     \<subseteq> {exampleC, exampleA, exampleB}"
  using directDependencies_resolves [of exampleA "[exampleC, exampleA, exampleB]"]
        directDependencies_resolves [of exampleB "[exampleC, exampleA, exampleB]"]
  by (simp add: exampleA_def exampleB_def exampleC_def object_keys_def)



section \<open>The engine's callbacks on the store\<close>

lemma length_array_map: "length (fst (array_map f xs h)) = length xs"
proof (induction xs arbitrary: h)
  case Nil
  show ?case by simp
next
  case (Cons x xs)
  obtain y h1 where s: "f x h = (y, h1)" by (cases "f x h")
  obtain ys h2 where r: "array_map f xs h1 = (ys, h2)" by (cases "array_map f xs h1")
  from Cons.IH [of h1] r s show ?case by simp
qed

lemma array_map_stampError:
  "array_map stampError fs h = (es, h') \<Longrightarrow>
     resultObjs h' = resultObjs h \<and> freshResult h' = freshResult h \<and>
     freshError h' = freshError h \<and> es = map (\<lambda>a. error (resultObjs h a)) fs"
proof (induction fs arbitrary: h es h')
  case Nil
  then show ?case by simp
next
  case (Cons a fs)
  obtain e h1 where s: "stampError a h = (e, h1)" by (cases "stampError a h")
  obtain es1 h2 where r: "array_map stampError fs h1 = (es1, h2)"
    by (cases "array_map stampError fs h1")
  from s have h1: "resultObjs h1 = resultObjs h" "freshResult h1 = freshResult h"
    "freshError h1 = freshError h" "e = error (resultObjs h a)"
    by (auto simp: stampError_def)
  from Cons.prems s r have eq: "es = e # es1" "h' = h2" by auto
  from Cons.IH [OF r] h1 eq show ?case by simp
qed

lemma array_map_stampResult:
  "array_map (stampResult rid) rs h = (rs', h') \<Longrightarrow>
     rs' = rs \<and> errorObjs h' = errorObjs h \<and> freshResult h' = freshResult h \<and>
     freshError h' = freshError h \<and>
     (\<forall>a. resultObjs h' a =
        (if a \<in> set rs then setResultRuleId (Some rid) (resultObjs h a) else resultObjs h a))"
proof (induction rs arbitrary: h rs' h')
  case Nil
  then show ?case by simp
next
  case (Cons x rs)
  let ?h1 = "h\<lparr>resultObjs := (resultObjs h)(x := setResultRuleId (Some rid) (resultObjs h x))\<rparr>"
  obtain rs1 h2 where r: "array_map (stampResult rid) rs ?h1 = (rs1, h2)"
    by (cases "array_map (stampResult rid) rs ?h1")
  have s: "stampResult rid x h = (x, ?h1)" by (simp add: stampResult_def)
  from Cons.prems r s have eq: "rs' = x # rs1" "h' = h2" by auto
  have idem: "\<And>v. setResultRuleId (Some rid) (setResultRuleId (Some rid) v) = setResultRuleId (Some rid) v"
    by (case_tac v) auto
  from Cons.IH [OF r] eq show ?case by (auto simp: idem)
qed

lemma setResultRuleId_pass [simp]: "resultPass (setResultRuleId v x) = resultPass x"
  by (cases x) simp_all

lemma setResultRuleId_ruleId [simp]: "resultRuleId (setResultRuleId v x) = v"
  by (cases x) simp_all

lemma setResultRuleId_error [simp]:
  "\<not> resultPass x \<Longrightarrow> error (setResultRuleId v x) = error x"
  by (cases x) simp_all

lemma aggregate_report:
  "aggregate A rs h = (rep, h') \<Longrightarrow>
     resultObjs h' = resultObjs h \<and> freshResult h' = freshResult h \<and> freshError h' = freshError h \<and>
     rep = \<lparr>pass = (\<forall>a \<in> set rs. resultPass (resultObjs h a)),
            namespace = asserterNamespace A,
            errors = map (\<lambda>a. error (resultObjs h a)) (filter (\<lambda>a. \<not> resultPass (resultObjs h a)) rs),
            stats = \<lparr>rulesCount = length (rules A),
                     passCount = length (filter (\<lambda>a. resultPass (resultObjs h a)) rs),
                     errorsCount = length (filter (\<lambda>a. \<not> resultPass (resultObjs h a)) rs)\<rparr>\<rparr>"
proof -
  assume a: "aggregate A rs h = (rep, h')"
  obtain es h1 where m: "array_map stampError (filter (\<lambda>a. \<not> resultPass (resultObjs h a)) rs) h = (es, h1)"
    by (cases "array_map stampError (filter (\<lambda>a. \<not> resultPass (resultObjs h a)) rs) h")
  note f = array_map_stampError [OF m]
  have p: "(filter (\<lambda>a. \<not> resultPass (resultObjs h a)) rs = []) = (\<forall>a \<in> set rs. resultPass (resultObjs h a))"
    by (auto simp: filter_empty_conv)
  from a m f p show ?thesis by (auto simp: aggregate_def Let_def)
qed

lemma runRule_results:
  "runRule ds r h = (rs, h') \<Longrightarrow> rs = fst (handler r ds h)"
proof -
  assume a: "runRule ds r h = (rs, h')"
  obtain as h1 where hd: "handler r ds h = (as, h1)" by (cases "handler r ds h")
  from a hd have "array_map (stampResult (rule_id r)) as h1 = (rs, h')"
    by (simp add: runRule_def)
  from array_map_stampResult [OF this] hd show ?thesis by simp
qed

lemma runRule_stamped:
  assumes "runRule ds r h = (rs, h')" and "handler r ds h = (results, h1)"
  shows "rs = results" and "errorObjs h' = errorObjs h1"
    and "freshResult h' = freshResult h1" and "freshError h' = freshError h1"
    and "resultObjs h' a =
       (if a \<in> set results then setResultRuleId (Some (rule_id r)) (resultObjs h1 a)
        else resultObjs h1 a)"
proof -
  from assms have "array_map (stampResult (rule_id r)) results h1 = (rs, h')"
    by (simp add: runRule_def)
  note m = array_map_stampResult [OF this]
  from m show "rs = results" by simp
  from m show "errorObjs h' = errorObjs h1" by simp
  from m show "freshResult h' = freshResult h1" by simp
  from m show "freshError h' = freshError h1" by simp
  from m show "resultObjs h' a =
       (if a \<in> set results then setResultRuleId (Some (rule_id r)) (resultObjs h1 a)
        else resultObjs h1 a)" by simp
qed

lemma flatMap_runRule_results:
  "fst (array_flatMap (runRule ds) rs h) = concat (handlerReturns ds rs h)"
proof (induction rs arbitrary: h)
  case Nil
  show ?case by simp
next
  case (Cons r rs)
  obtain as h1 where s: "runRule ds r h = (as, h1)" by (cases "runRule ds r h")
  obtain bs h2 where t: "array_flatMap (runRule ds) rs h1 = (bs, h2)"
    by (cases "array_flatMap (runRule ds) rs h1")
  from Cons.IH [of h1] s t runRule_results [OF s] show ?case by simp
qed

lemma length_handlerReturns: "length (handlerReturns ds rs h) = length rs"
  by (induction rs arbitrary: h) auto

lemma stampError_objects:
  "array_map stampError fs h = (es, h') \<Longrightarrow>
   \<forall>a \<in> set fs. resultRuleId (resultObjs h a) = owner (error (resultObjs h a)) \<Longrightarrow>
   errorObjs h' e =
     (if e \<in> (\<lambda>a. error (resultObjs h a)) ` set fs
      then (errorObjs h e)\<lparr>ruleId := owner e\<rparr> else errorObjs h e)"
proof (induction fs arbitrary: h es h')
  case Nil
  then show ?case by simp
next
  case (Cons a fs)
  let ?e = "error (resultObjs h a)"
  let ?h1 = "h\<lparr>errorObjs := (errorObjs h)(?e :=
            (errorObjs h ?e)\<lparr>ruleId := resultRuleId (resultObjs h a)\<rparr>)\<rparr>"
  have s: "stampError a h = (?e, ?h1)" by (simp add: stampError_def)
  obtain es1 h2 where r: "array_map stampError fs ?h1 = (es1, h2)"
    by (cases "array_map stampError fs ?h1")
  from Cons.prems(1) s r have eq: "h' = h2" by auto
  have own: "resultRuleId (resultObjs h a) = owner ?e" using Cons.prems(2) by simp
  have sh: "\<forall>a \<in> set fs. resultRuleId (resultObjs ?h1 a) = owner (error (resultObjs ?h1 a))"
    using Cons.prems(2) by simp
  have ih: "errorObjs h' e =
     (if e \<in> (\<lambda>a. error (resultObjs h a)) ` set fs
      then (errorObjs ?h1 e)\<lparr>ruleId := owner e\<rparr> else errorObjs ?h1 e)"
    using Cons.IH [OF r sh] eq by simp
  show ?case
  proof (cases "e = ?e")
    case True
    with ih own show ?thesis by simp
  next
    case False
    with ih show ?thesis by auto
  qed
qed


lemma aggregate_errors:
  assumes "aggregate A rs h = (rep, h')"
    and "\<forall>a \<in> set rs. \<not> resultPass (resultObjs h a) \<longrightarrow>
           resultRuleId (resultObjs h a) = owner (error (resultObjs h a))"
  shows "errorObjs h' e =
     (if e \<in> (\<lambda>a. error (resultObjs h a)) ` {a \<in> set rs. \<not> resultPass (resultObjs h a)}
      then (errorObjs h e)\<lparr>ruleId := owner e\<rparr> else errorObjs h e)"
proof -
  let ?fs = "filter (\<lambda>a. \<not> resultPass (resultObjs h a)) rs"
  obtain es h1 where m: "array_map stampError ?fs h = (es, h1)"
    by (cases "array_map stampError ?fs h")
  with assms(1) have eq: "h' = h1" by (simp add: aggregate_def Let_def)
  from assms(2) have "\<forall>a \<in> set ?fs. resultRuleId (resultObjs h a) = owner (error (resultObjs h a))"
    by simp
  from stampError_objects [OF m this, of e] eq show ?thesis by simp
qed

section \<open>Created results\<close>

lemma heapExtends_refl [simp]: "heapExtends h h"
  by (simp add: heapExtends_def)

lemma heapExtends_trans: "heapExtends h1 h2 \<Longrightarrow> heapExtends h2 h3 \<Longrightarrow> heapExtends h1 h3"
  by (auto simp: heapExtends_def)

lemma createdIn_later:
  assumes "createdIn h h1 a" and "heapExtends h1 h2"
  shows "createdIn h h2 a" and "resultValue h2 a = resultValue h1 a"
  using assms
  by (auto simp: createdIn_def heapExtends_def resultValue_def split: RuleResult.splits)

lemma createdIn_earlier: "createdIn h1 h2 a \<Longrightarrow> heapExtends h h1 \<Longrightarrow> createdIn h h2 a"
  by (auto simp: createdIn_def heapExtends_def split: RuleResult.splits)

lemma successful_creates:
  "successful h = (a, h') \<Longrightarrow>
     heapExtends h h' \<and> createdIn h h' a \<and> resultValue h' a = SuccessfulValue None"
  by (auto simp: successful_def heapExtends_def createdIn_def resultValue_def)

lemma failed_creates:
  "failed d msg h = (a, h') \<Longrightarrow>
     heapExtends h h' \<and> createdIn h h' a \<and>
     resultValue h' a = FailedValue None \<lparr>ruleId = None, message = msg, drageeName = name d\<rparr>"
  by (auto simp: failed_def heapExtends_def createdIn_def resultValue_def)

lemma array_map_creates:
  assumes step: "\<And>x h a h'. f x h = (a, h') \<Longrightarrow>
      heapExtends h h' \<and> createdIn h h' a \<and> resultValue h' a = g x"
  shows "array_map f xs h = (as, h') \<Longrightarrow>
     heapExtends h h' \<and> (\<forall>a \<in> set as. createdIn h h' a) \<and>
     map (resultValue h') as = map g xs"
proof (induction xs arbitrary: h as h')
  case Nil
  then show ?case by simp
next
  case (Cons x xs)
  obtain a h1 where s: "f x h = (a, h1)" by (cases "f x h")
  obtain bs h2 where r: "array_map f xs h1 = (bs, h2)" by (cases "array_map f xs h1")
  from Cons.prems s r have eq: "as = a # bs" "h' = h2" by auto
  note st = step [OF s]
  note ih = Cons.IH [OF r]
  from st ih have ext: "heapExtends h h2" by (blast intro: heapExtends_trans)
  from st ih createdIn_later [of h h1 a h2]
  have hd: "createdIn h h2 a" "resultValue h2 a = g x" by auto
  from st ih have tl: "\<forall>b \<in> set bs. createdIn h h2 b"
    by (blast intro: createdIn_earlier)
  from ext hd tl ih eq show ?case by simp
qed

lemma multipleExpectDragees_creates:
  "multipleExpectDragees r dragees msg evalFn h = (as, h') \<Longrightarrow>
     heapExtends h h' \<and> (\<forall>a \<in> set as. createdIn h h' a) \<and>
     map (resultValue h') as =
       map (\<lambda>d. if evalFn d then SuccessfulValue None
                 else FailedValue None \<lparr>ruleId = None, message = msg, drageeName = name r\<rparr>)
           dragees"
  unfolding multipleExpectDragees_def
  by (rule array_map_creates) (auto dest: successful_creates failed_creates split: if_splits)


section \<open>The example runs\<close>

lemma example_heap_reads [simp]:
  "resultObjs emptyHeap = (\<lambda>a. SuccessfulRuleResult None)"
  "errorObjs emptyHeap = (\<lambda>a. \<lparr>ruleId = None, message = [], drageeName = []\<rparr>)"
  "freshResult emptyHeap = 0" "freshError emptyHeap = 0"
  by (simp_all add: emptyHeap_def)

lemmas example_defs =
  exampleAsserter_def exampleFailing_def examplePassing_def exampleA_def exampleB_def
  exampleC_def multipleExpectDragees_def successful_def failed_def

lemmas run_defs =
  asserterHandler_def runRule_def stampResult_def stampError_def aggregate_def Let_def

lemma example_run:
  "fst (asserterHandler exampleAsserter [exampleB, exampleC] emptyHeap)
     = \<lparr>pass = False, namespace = ''layering'', errors = [0],
        stats = \<lparr>rulesCount = 2, passCount = 3, errorsCount = 1\<rparr>\<rparr>"
  by (simp add: example_defs run_defs)

lemma example_returns:
  "handlerReturns [exampleB, exampleC] (rules exampleAsserter) emptyHeap = [[0, 1], [2, 3]]"
  by (simp add: example_defs run_defs)





section \<open>Claims on the expectations\<close>

text \<open>
  Claim C9. A failing result built by \<open>failed\<close>, \<open>expectDragee\<close>, \<open>expectDragees\<close> or
  \<open>multipleExpectDragees\<close> holds an error whose \<open>drageeName\<close> is the name of the root, the
  first argument (and not the name of the dragee or dependencies that were evaluated), and
  whose \<open>message\<close> is the message given. The theorem gives the whole value of each result
  built: a success where the evaluation holds, and this failure where it does not.
\<close>

theorem failures_name_the_root:
  "(failed r msg h = (a, h') \<longrightarrow>
      resultValue h' a = FailedValue None \<lparr>ruleId = None, message = msg, drageeName = name r\<rparr>) \<and>
   (expectDragee r dragee msg evalFn h = (a, h') \<longrightarrow>
      resultValue h' a =
        (if evalFn dragee then SuccessfulValue None
         else FailedValue None \<lparr>ruleId = None, message = msg, drageeName = name r\<rparr>)) \<and>
   (expectDragees r dependancies msg evalFns h = (a, h') \<longrightarrow>
      resultValue h' a =
        (if evalFns dependancies then SuccessfulValue None
         else FailedValue None \<lparr>ruleId = None, message = msg, drageeName = name r\<rparr>)) \<and>
   (multipleExpectDragees r dragees msg evalFn h = (results, h'') \<longrightarrow>
      map (resultValue h'') results =
        map (\<lambda>d. if evalFn d then SuccessfulValue None
                  else FailedValue None \<lparr>ruleId = None, message = msg, drageeName = name r\<rparr>)
            dragees)"
  using multipleExpectDragees_creates [of r dragees msg evalFn h results h'']
  by (auto simp: expectDragee_def expectDragees_def
           dest: successful_creates failed_creates split: if_splits)

text \<open>
  On the example dragees, with the root \<open>a\<close>: the failure raised while evaluating \<open>b\<close> names
  \<open>a\<close>, through each of the four functions.
\<close>

theorem failures_name_the_root_witness:
  "resultValue (snd (failed exampleA ''cycle detected'' emptyHeap))
       (fst (failed exampleA ''cycle detected'' emptyHeap))
     = FailedValue None \<lparr>ruleId = None, message = ''cycle detected'', drageeName = ''a''\<rparr> \<and>
   resultValue (snd (expectDragee exampleA exampleB ''cycle detected'' (\<lambda>d. name d \<noteq> ''b'') emptyHeap))
       (fst (expectDragee exampleA exampleB ''cycle detected'' (\<lambda>d. name d \<noteq> ''b'') emptyHeap))
     = FailedValue None \<lparr>ruleId = None, message = ''cycle detected'', drageeName = ''a''\<rparr> \<and>
   resultValue (snd (expectDragees exampleA [exampleB, exampleC] ''cycle detected'' (\<lambda>ds. ds = []) emptyHeap))
       (fst (expectDragees exampleA [exampleB, exampleC] ''cycle detected'' (\<lambda>ds. ds = []) emptyHeap))
     = FailedValue None \<lparr>ruleId = None, message = ''cycle detected'', drageeName = ''a''\<rparr> \<and>
   map (resultValue (snd (multipleExpectDragees exampleA [exampleB, exampleC] ''cycle detected''
                            (\<lambda>d. name d \<noteq> ''b'') emptyHeap)))
       (fst (multipleExpectDragees exampleA [exampleB, exampleC] ''cycle detected''
                            (\<lambda>d. name d \<noteq> ''b'') emptyHeap))
     = [FailedValue None \<lparr>ruleId = None, message = ''cycle detected'', drageeName = ''a''\<rparr>,
        SuccessfulValue None]"
proof -
  let ?f = "failed exampleA ''cycle detected'' emptyHeap"
  let ?e = "expectDragee exampleA exampleB ''cycle detected'' (\<lambda>d. name d \<noteq> ''b'') emptyHeap"
  let ?g = "expectDragees exampleA [exampleB, exampleC] ''cycle detected'' (\<lambda>ds. ds = []) emptyHeap"
  let ?m = "multipleExpectDragees exampleA [exampleB, exampleC] ''cycle detected''
                            (\<lambda>d. name d \<noteq> ''b'') emptyHeap"
  note inst = failures_name_the_root [where r = exampleA and msg = "''cycle detected''"
      and h = emptyHeap]
  have 1: "resultValue (snd ?f) (fst ?f)
     = FailedValue None \<lparr>ruleId = None, message = ''cycle detected'', drageeName = ''a''\<rparr>"
    using inst [where a = "fst ?f" and h' = "snd ?f", THEN conjunct1]
    by (simp add: exampleA_def)
  have 2: "resultValue (snd ?e) (fst ?e)
     = FailedValue None \<lparr>ruleId = None, message = ''cycle detected'', drageeName = ''a''\<rparr>"
    using inst [where a = "fst ?e" and h' = "snd ?e" and dragee = exampleB
        and evalFn = "\<lambda>d. name d \<noteq> ''b''", THEN conjunct2, THEN conjunct1]
    by (simp add: exampleA_def exampleB_def)
  have 3: "resultValue (snd ?g) (fst ?g)
     = FailedValue None \<lparr>ruleId = None, message = ''cycle detected'', drageeName = ''a''\<rparr>"
    using inst [where a = "fst ?g" and h' = "snd ?g" and dependancies = "[exampleB, exampleC]"
        and evalFns = "\<lambda>ds. ds = []", THEN conjunct2, THEN conjunct2, THEN conjunct1]
    by (simp add: exampleA_def)
  have 4: "map (resultValue (snd ?m)) (fst ?m)
     = [FailedValue None \<lparr>ruleId = None, message = ''cycle detected'', drageeName = ''a''\<rparr>,
        SuccessfulValue None]"
    using inst [where results = "fst ?m" and h'' = "snd ?m" and dragees = "[exampleB, exampleC]"
        and evalFn = "\<lambda>d. name d \<noteq> ''b''", THEN conjunct2, THEN conjunct2, THEN conjunct2]
    by (simp add: exampleA_def exampleB_def exampleC_def)
  from 1 2 3 4 show ?thesis by (simp only: simp_thms)
qed

section \<open>Claims on the reports\<close>

text \<open>
  Claim C3. When \<open>asserter.rule(file)\<close> finds no rule, \<open>generateReportForRule\<close> returns the
  passing report with no error and all three statistics zero, in the asserter's namespace,
  and leaves the store as it was: no handler ran and nothing was stamped.
\<close>

theorem generateReportForRule_not_found:
  "rule asserter file = None \<Longrightarrow>
   generateReportForRule asserter dragees file h =
     (\<lparr>pass = True, namespace = asserterNamespace asserter, errors = [],
       stats = \<lparr>rulesCount = 0, passCount = 0, errorsCount = 0\<rparr>\<rparr>, h)"
  by (simp add: generateReportForRule_def)

text \<open>The example asserter has no rule for \<open>absent\<close>.\<close>

theorem generateReportForRule_not_found_witness:
  "rule exampleAsserter ''absent'' = None \<and>
   generateReportForRule exampleAsserter [exampleB, exampleC] ''absent'' emptyHeap =
     (\<lparr>pass = True, namespace = ''layering'', errors = [],
       stats = \<lparr>rulesCount = 0, passCount = 0, errorsCount = 0\<rparr>\<rparr>, emptyHeap)"
proof -
  have n: "rule exampleAsserter ''absent'' = None" by (simp add: exampleAsserter_def)
  from generateReportForRule_not_found [OF n, of "[exampleB, exampleC]" emptyHeap] n
  show ?thesis by (simp add: exampleAsserter_def)
qed

text \<open>
  Claim C6. The report of \<open>asserterHandler\<close>, and likewise the report of
  \<open>generateReportForRule\<close>, passes exactly when its list of errors is empty, and its namespace
  is the asserter's namespace.
\<close>

theorem report_pass_iff_no_errors:
  "pass (fst (asserterHandler asserter dragees h))
     = (errors (fst (asserterHandler asserter dragees h)) = []) \<and>
   namespace (fst (asserterHandler asserter dragees h)) = asserterNamespace asserter \<and>
   pass (fst (generateReportForRule asserter dragees file h))
     = (errors (fst (generateReportForRule asserter dragees file h)) = []) \<and>
   namespace (fst (generateReportForRule asserter dragees file h)) = asserterNamespace asserter"
proof -
  have agg: "pass (fst (aggregate asserter rs h0)) = (errors (fst (aggregate asserter rs h0)) = []) \<and>
      namespace (fst (aggregate asserter rs h0)) = asserterNamespace asserter" for rs h0
    by (simp add: aggregate_def Let_def split: prod.splits)
  have full: "asserterHandler asserter dragees h =
      aggregate asserter (fst (array_flatMap (runRule dragees) (rules asserter) h))
        (snd (array_flatMap (runRule dragees) (rules asserter) h))"
    by (simp add: asserterHandler_def split: prod.splits)
  have one: "pass (fst (generateReportForRule asserter dragees file h))
     = (errors (fst (generateReportForRule asserter dragees file h)) = []) \<and>
     namespace (fst (generateReportForRule asserter dragees file h)) = asserterNamespace asserter"
  proof (cases "rule asserter file")
    case None
    then show ?thesis by (simp add: generateReportForRule_def)
  next
    case (Some r)
    then have "generateReportForRule asserter dragees file h =
      aggregate asserter (fst (runRule dragees r h)) (snd (runRule dragees r h))"
      by (simp add: generateReportForRule_def split: prod.splits)
    with agg show ?thesis by simp
  qed
  from agg full one show ?thesis by simp
qed

text \<open>
  The example asserter fails with one error, and passes with none on the rule that fails
  nothing; an absent rule gives the passing report without errors.
\<close>

theorem report_pass_iff_no_errors_witness:
  "pass (fst (asserterHandler exampleAsserter [exampleB, exampleC] emptyHeap)) = False \<and>
   errors (fst (asserterHandler exampleAsserter [exampleB, exampleC] emptyHeap)) = [0] \<and>
   namespace (fst (asserterHandler exampleAsserter [exampleB, exampleC] emptyHeap)) = ''layering'' \<and>
   pass (fst (generateReportForRule exampleAsserter [exampleB, exampleC] ''named'' emptyHeap))
     = True \<and>
   errors (fst (generateReportForRule exampleAsserter [exampleB, exampleC] ''named'' emptyHeap))
     = [] \<and>
   namespace (fst (generateReportForRule exampleAsserter [exampleB, exampleC] ''named'' emptyHeap))
     = ''layering''"
proof -
  have e: "errors (fst (asserterHandler exampleAsserter [exampleB, exampleC] emptyHeap)) = [0]"
    by (simp add: example_run)
  have g: "errors (fst (generateReportForRule exampleAsserter [exampleB, exampleC] ''named''
      emptyHeap)) = []"
    by (simp add: generateReportForRule_def example_defs run_defs)
  have n: "asserterNamespace exampleAsserter = ''layering''" by (simp add: exampleAsserter_def)
  from report_pass_iff_no_errors [of exampleAsserter "[exampleB, exampleC]" emptyHeap "''named''"]
    e g n show ?thesis by simp
qed

text \<open>
  Claim C2. In the report of \<open>asserterHandler\<close>, \<open>passCount + errorsCount\<close> is the number of
  results that the handlers returned in all: there is one handler call per rule of the
  asserter, and the count is the sum of the lengths of the arrays those calls returned.
\<close>

theorem asserterHandler_counts_results:
  "passCount (stats (fst (asserterHandler asserter dragees h)))
     + errorsCount (stats (fst (asserterHandler asserter dragees h)))
     = sum_list (map length (handlerReturns dragees (rules asserter) h)) \<and>
   length (handlerReturns dragees (rules asserter) h) = length (rules asserter)"
proof -
  obtain rs h1 where f: "array_flatMap (runRule dragees) (rules asserter) h = (rs, h1)"
    by (cases "array_flatMap (runRule dragees) (rules asserter) h")
  obtain rep h2 where a: "aggregate asserter rs h1 = (rep, h2)"
    by (cases "aggregate asserter rs h1")
  from f a have r: "fst (asserterHandler asserter dragees h) = rep"
    by (simp add: asserterHandler_def)
  from aggregate_report [OF a]
  have "passCount (stats rep) + errorsCount (stats rep) = length rs"
    by (simp add: sum_length_filter_compl)
  moreover from f flatMap_runRule_results [of dragees "rules asserter" h]
  have "rs = concat (handlerReturns dragees (rules asserter) h)" by simp
  ultimately show ?thesis
    using r by (simp add: length_concat length_handlerReturns)
qed

text \<open>
  The example asserter on two dragees returns four results in all, one failed and three
  passed.
\<close>

theorem asserterHandler_counts_results_witness:
  "passCount (stats (fst (asserterHandler exampleAsserter [exampleB, exampleC] emptyHeap)))
     + errorsCount (stats (fst (asserterHandler exampleAsserter [exampleB, exampleC] emptyHeap)))
     = 4 \<and>
   map length (handlerReturns [exampleB, exampleC] (rules exampleAsserter) emptyHeap) = [2, 2] \<and>
   length (rules exampleAsserter) = 2"
  using asserterHandler_counts_results [of exampleAsserter "[exampleB, exampleC]" emptyHeap]
  by (simp add: example_returns)

text \<open>
  Claim C1. When \<open>asserter.rule(file)\<close> finds a rule, the report of
  \<open>generateReportForRule\<close> has \<open>rulesCount\<close> equal to the number of rules of the asserter
  (and not 1), while the rest is computed from the results that the handler of the one rule
  returned: \<open>errorsCount\<close> and \<open>passCount\<close> count its failed and its passed results,
  \<open>pass\<close> says that none failed, and \<open>errors\<close> holds the error objects of its failed
  results, in order, each as the handler left it but for \<open>ruleId\<close>, which is the rule's id.
\<close>

theorem generateReportForRule_found:
  assumes "rule asserter file = Some r"
    and "handler r dragees h = (results, h1)"
    and "generateReportForRule asserter dragees file h = (rep, h')"
  shows "rulesCount (stats rep) = length (rules asserter) \<and>
     errorsCount (stats rep) = length (filter (\<lambda>a. \<not> resultPass (resultObjs h1 a)) results) \<and>
     passCount (stats rep) = length (filter (\<lambda>a. resultPass (resultObjs h1 a)) results) \<and>
     pass rep = (\<forall>a \<in> set results. resultPass (resultObjs h1 a)) \<and>
     errors rep = map (\<lambda>a. error (resultObjs h1 a))
                    (filter (\<lambda>a. \<not> resultPass (resultObjs h1 a)) results) \<and>
     map (errorObjs h') (errors rep) =
       map (\<lambda>a. (errorObjs h1 (error (resultObjs h1 a)))\<lparr>ruleId := Some (rule_id r)\<rparr>)
           (filter (\<lambda>a. \<not> resultPass (resultObjs h1 a)) results)"
proof -
  obtain rs h2 where run: "runRule dragees r h = (rs, h2)" by (cases "runRule dragees r h")
  note st = runRule_stamped [OF run assms(2)]
  from assms(1,3) run st(1) have agg: "aggregate asserter results h2 = (rep, h')"
    by (simp add: generateReportForRule_def)
  have p: "resultPass (resultObjs h2 a) = resultPass (resultObjs h1 a)" for a
    by (simp add: st(5))
  have e: "error (resultObjs h2 a) = error (resultObjs h1 a)"
    if "\<not> resultPass (resultObjs h1 a)" for a
    using that by (simp add: st(5))
  have i: "resultRuleId (resultObjs h2 a) = Some (rule_id r)" if "a \<in> set results" for a
    using that by (simp add: st(5))
  have errs2: "map (\<lambda>a. error (resultObjs h2 a)) (filter (\<lambda>a. \<not> resultPass (resultObjs h1 a)) results)
      = map (\<lambda>a. error (resultObjs h1 a)) (filter (\<lambda>a. \<not> resultPass (resultObjs h1 a)) results)"
    by (rule map_cong) (auto simp: e)
  from aggregate_report [OF agg] p errs2
  have rep: "rep = \<lparr>pass = (\<forall>a \<in> set results. resultPass (resultObjs h1 a)),
            namespace = asserterNamespace asserter,
            errors = map (\<lambda>a. error (resultObjs h1 a))
                       (filter (\<lambda>a. \<not> resultPass (resultObjs h1 a)) results),
            stats = \<lparr>rulesCount = length (rules asserter),
                     passCount = length (filter (\<lambda>a. resultPass (resultObjs h1 a)) results),
                     errorsCount = length (filter (\<lambda>a. \<not> resultPass (resultObjs h1 a)) results)\<rparr>\<rparr>"
    by simp
  have own: "\<forall>a \<in> set results. \<not> resultPass (resultObjs h2 a) \<longrightarrow>
      resultRuleId (resultObjs h2 a) = (\<lambda>e. Some (rule_id r)) (error (resultObjs h2 a))"
    by (simp add: i)
  note ae = aggregate_errors [OF agg own]
  have val: "errorObjs h' (error (resultObjs h1 a))
      = (errorObjs h1 (error (resultObjs h1 a)))\<lparr>ruleId := Some (rule_id r)\<rparr>"
    if a: "a \<in> set results" "\<not> resultPass (resultObjs h1 a)" for a
  proof -
    from a have "error (resultObjs h1 a) \<in>
        (\<lambda>a. error (resultObjs h2 a)) ` {a \<in> set results. \<not> resultPass (resultObjs h2 a)}"
      using e [of a] p [of a] by force
    with ae [of "error (resultObjs h1 a)"] st(2) show ?thesis by simp
  qed
  have vals: "map (errorObjs h') (errors rep) =
       map (\<lambda>a. (errorObjs h1 (error (resultObjs h1 a)))\<lparr>ruleId := Some (rule_id r)\<rparr>)
           (filter (\<lambda>a. \<not> resultPass (resultObjs h1 a)) results)"
    unfolding rep by (simp add: val cong: map_cong)
  from rep vals show ?thesis by simp
qed

text \<open>
  The example asserter has two rules. The report for its rule \<open>no-cycle\<close> alone counts 2
  rules, and one passed and one failed result, those of that rule.
\<close>

theorem generateReportForRule_found_witness:
  "rule exampleAsserter ''no-cycle'' = Some exampleFailing \<and>
   length (rules exampleAsserter) = 2 \<and>
   stats (fst (generateReportForRule exampleAsserter [exampleB, exampleC] ''no-cycle'' emptyHeap))
     = \<lparr>rulesCount = 2, passCount = 1, errorsCount = 1\<rparr> \<and>
   pass (fst (generateReportForRule exampleAsserter [exampleB, exampleC] ''no-cycle'' emptyHeap))
     = False \<and>
   errors (reportValue
       (snd (generateReportForRule exampleAsserter [exampleB, exampleC] ''no-cycle'' emptyHeap))
       (fst (generateReportForRule exampleAsserter [exampleB, exampleC] ''no-cycle'' emptyHeap)))
     = [\<lparr>ruleId = Some ''layering/no-cycle'', message = ''cycle detected'', drageeName = ''a''\<rparr>]"
proof -
  let ?g = "generateReportForRule exampleAsserter [exampleB, exampleC] ''no-cycle'' emptyHeap"
  let ?hd = "handler exampleFailing [exampleB, exampleC] emptyHeap"
  have f: "rule exampleAsserter ''no-cycle'' = Some exampleFailing"
    by (simp add: exampleAsserter_def)
  have n: "length (rules exampleAsserter) = 2" by (simp add: exampleAsserter_def)
  have rs: "fst ?hd = [0, 1]"
    by (simp add: exampleFailing_def multipleExpectDragees_def successful_def failed_def
        exampleB_def exampleC_def)
  have r0: "resultObjs (snd ?hd) 0 = FailedRuleResult None 0"
    by (simp add: exampleFailing_def multipleExpectDragees_def successful_def failed_def
        exampleB_def exampleC_def)
  have r1: "resultObjs (snd ?hd) (Suc 0) = SuccessfulRuleResult None"
    by (simp add: exampleFailing_def multipleExpectDragees_def successful_def failed_def
        exampleB_def exampleC_def)
  have e0: "errorObjs (snd ?hd) 0
      = \<lparr>ruleId = None, message = ''cycle detected'', drageeName = ''a''\<rparr>"
    by (simp add: exampleFailing_def multipleExpectDragees_def successful_def failed_def
        exampleA_def exampleB_def exampleC_def)
  have i: "rule_id exampleFailing = ''layering/no-cycle''" by (simp add: exampleFailing_def)
  note t = generateReportForRule_found [OF f surjective_pairing surjective_pairing,
      of "[exampleB, exampleC]" emptyHeap]
  from t rs r0 r1 e0 i n
  have "rulesCount (stats (fst ?g)) = 2" "errorsCount (stats (fst ?g)) = 1"
    "passCount (stats (fst ?g)) = 1" "pass (fst ?g) = False"
    "map (errorObjs (snd ?g)) (errors (fst ?g))
      = [\<lparr>ruleId = Some ''layering/no-cycle'', message = ''cycle detected'', drageeName = ''a''\<rparr>]"
    by auto
  with f n show ?thesis by (simp add: reportValue_def ReportStats.equality)
qed

section \<open>The results of a run, as values\<close>






lemma stampedValue_read:
  "resultValue (h\<lparr>resultObjs := ro\<rparr>) a = stampedValue rid (resultValue h a)"
  if "ro a = setResultRuleId (Some rid) (resultObjs h a)"
  using that by (cases "resultObjs h a") (simp_all add: resultValue_def)










section \<open>Claims on stamping and repeated runs\<close>




text \<open>
  The first condition of the amended claim is needed as well: each handler of
  \<open>overwritingAsserter\<close> returns a result it created, yet the result that the handler of
  \<open>layering/named\<close> returned ends with the id of the rule that ran after it.
\<close>

lemma overwriting_run:
  "handlerReturns [exampleB] (rules overwritingAsserter) emptyHeap = [[0], [1]] \<and>
   rule_id (rules overwritingAsserter ! 0) = ''layering/named'' \<and>
   resultRuleId (resultObjs (snd (asserterHandler overwritingAsserter [exampleB] emptyHeap)) 0)
     = Some ''layering/overwriting''"
  by (simp add: overwritingAsserter_def overwritingRule_def examplePassing_def successful_def
      run_defs)



end
